theory Spec2Isabelle
  imports Complex_Main
begin

section \<open>Character n-gram language model: training and generation\<close>

text \<open>
  The notebook defines \<open>normalize\<close>, \<open>train_lm\<close>, \<open>generate_letter\<close> and
  \<open>generate_text\<close>. A Python \<open>str\<close> is a \<open>string\<close>; the one-character strings the loops
  range over are \<open>char\<close>s. Python dictionaries (\<open>Counter\<close>, \<open>defaultdict\<close>, \<open>dict\<close>) keep
  their keys in insertion order, and \<open>most_common\<close> depends on that order, so they are
  association lists with distinct keys, new keys appended at the end. Counts and \<open>n\<close> are
  Python integers (\<open>int\<close>). The quotient \<open>cnt/total\<close> is taken exactly, in \<open>rat\<close>; the
  rounding of the 64-bit floats is not modelled. Exceptions are values of type \<open>error\<close>.
\<close>

datatype error = ZeroDivisionError | ValueError | KeyError

type_synonym counter = "(char \<times> int) list"
type_synonym distribution = "(char \<times> rat) list"
type_synonym raw_model = "(string \<times> counter) list"
type_synonym model = "(string \<times> distribution) list"

subsection \<open>Dictionaries\<close>

text \<open>\<open>d[k] = v\<close>: an existing key keeps its position, a new key goes last.\<close>

fun dict_set :: "'k \<Rightarrow> 'v \<Rightarrow> ('k \<times> 'v) list \<Rightarrow> ('k \<times> 'v) list" where
  "dict_set k v [] = [(k, v)]"
| "dict_set k v ((k', v') # rest) =
     (if k' = k then (k', v) # rest else (k', v') # dict_set k v rest)"

text \<open>\<open>k in d\<close>.\<close>

definition dict_has :: "('k \<times> 'v) list \<Rightarrow> 'k \<Rightarrow> bool" where
  "dict_has d k = (k \<in> set (map fst d))"

text \<open>\<open>d[k]\<close> on a plain \<open>dict\<close>: a missing key raises.\<close>

definition dict_get :: "('k \<times> 'v) list \<Rightarrow> 'k \<Rightarrow> error + 'v" where
  "dict_get d k = (case map_of d k of None \<Rightarrow> Inl KeyError | Some v \<Rightarrow> Inr v)"

text \<open>\<open>counter[c]\<close>: a \<open>Counter\<close> answers 0 for a missing key.\<close>

definition counter_get :: "counter \<Rightarrow> char \<Rightarrow> int" where
  "counter_get counter c = (case map_of counter c of None \<Rightarrow> 0 | Some cnt \<Rightarrow> cnt)"

text \<open>\<open>counter[c] += 1\<close>.\<close>

definition counter_incr :: "char \<Rightarrow> counter \<Rightarrow> counter" where
  "counter_incr c counter = dict_set c (counter_get counter c + 1) counter"

text \<open>
  \<open>raw_lm[h][char] += 1\<close> on a \<open>defaultdict(Counter)\<close>: a missing history is first bound to
  an empty counter, at the end of the dictionary.
\<close>

definition record_occurrence :: "string \<Rightarrow> char \<Rightarrow> raw_model \<Rightarrow> raw_model" where
  "record_occurrence h c raw_lm =
     dict_set h (counter_incr c (case map_of raw_lm h of None \<Rightarrow> [] | Some counter \<Rightarrow> counter)) raw_lm"

subsection \<open>normalize\<close>

text \<open>
  \<open>Counter.most_common()\<close> is \<open>sorted(items, key=itemgetter(1), reverse=True)\<close>: a stable sort
  by descending count, items of equal count staying in dictionary order.
\<close>

definition most_common :: "counter \<Rightarrow> counter" where
  "most_common counter = sort_key (\<lambda>(c, cnt). - cnt) counter"

text \<open>
  \<open>normalize(counter)\<close> (here \<open>normalize_counter\<close>, the name \<open>normalize\<close> being taken in
  HOL): \<open>total = sum(counter.values())\<close>, then \<open>cnt/total\<close> for each item of \<open>most_common()\<close>. The
  division is reached only when there is an item; it raises when the total is zero.
\<close>

definition normalize_counter :: "counter \<Rightarrow> error + distribution" where
  "normalize_counter counter =
     (let total = sum_list (map snd counter) in
      if most_common counter = [] then Inr []
      else if total = 0 then Inl ZeroDivisionError
      else Inr (map (\<lambda>(c, cnt). (c, of_int cnt / of_int total)) (most_common counter)))"

subsection \<open>train\_lm\<close>

text \<open>
  The window update of both loops: \<open>history = char\<close> when \<open>n == 1\<close>, otherwise
  \<open>history = history[1:] + char\<close>.
\<close>

definition slide :: "int \<Rightarrow> string \<Rightarrow> char \<Rightarrow> string" where
  "slide n history c = (if n = 1 then [c] else drop 1 history @ [c])"

text \<open>
  The counting loop \<open>for char in text\<close>, on the state \<open>(raw_lm, history)\<close>. The key
  \<open>h = "".join(history)\<close> is \<open>history\<close> itself, a string being joined from its own characters.
\<close>

fun count_loop :: "int \<Rightarrow> string \<Rightarrow> raw_model \<times> string \<Rightarrow> raw_model \<times> string" where
  "count_loop n [] (raw_lm, history) = (raw_lm, history)"
| "count_loop n (c # cs) (raw_lm, history) =
     count_loop n cs (record_occurrence history c raw_lm, slide n history c)"

text \<open>The state before the loop: an empty \<open>defaultdict\<close> and \<open>history = "~"\<close>.\<close>

definition initial_history :: string where
  "initial_history = ''~''"

definition count_ngrams :: "string \<Rightarrow> int \<Rightarrow> raw_model" where
  "count_ngrams text n = fst (count_loop n text ([], initial_history))"

text \<open>
  The comprehension \<open>{history : normalize(counter) for ... in raw_lm.items()}\<close>; each entry is
  stored in the new dictionary in turn, and the first exception ends it.
\<close>

fun normalize_all :: "raw_model \<Rightarrow> model \<Rightarrow> error + model" where
  "normalize_all [] lm = Inr lm"
| "normalize_all ((h, counter) # rest) lm =
     (case normalize_counter counter of
        Inl e \<Rightarrow> Inl e
      | Inr distr \<Rightarrow> normalize_all rest (dict_set h distr lm))"

definition train_lm :: "string \<Rightarrow> int \<Rightarrow> error + model" where
  "train_lm text n = normalize_all (count_ngrams text n) []"

subsection \<open>The training loop as a transition system\<close>




subsection \<open>generate\_letter\<close>

text \<open>
  \<open>unzip(pairs)\<close> is \<open>tuple(zip(*pairs))\<close>: the pair of the letters and the probabilities
  when there is at least one pair, and the empty tuple (\<open>None\<close> here) when there is none.
\<close>

definition unzip :: "('a \<times> 'b) list \<Rightarrow> ('a list \<times> 'b list) option" where
  "unzip pairs = (if pairs = [] then None else Some (map fst pairs, map snd pairs))"

text \<open>
  \<open>np.random.choice(letters, p=probs)\<close> belongs to NumPy. It is modelled by what its
  documentation says: the call is rejected with \<open>ValueError\<close> when there is no letter, when
  the two sequences differ in length, when a probability is negative or when the
  probabilities do not sum to one; otherwise one uniform number of the process-wide
  generator is consumed and the letter whose cumulative interval holds it is returned. The
  generator is the sequence \<open>draws\<close> of its uniform numbers and the count \<open>pos\<close> of those
  consumed so far.
\<close>

fun select :: "rat \<Rightarrow> char \<Rightarrow> rat \<Rightarrow> (char \<times> rat) list \<Rightarrow> char" where
  "select u c p [] = c"
| "select u c p ((c', p') # rest) = (if u < p then c else select (u - p) c' p' rest)"

definition random_choice :: "(nat \<Rightarrow> rat) \<Rightarrow> char list \<Rightarrow> rat list \<Rightarrow> nat \<Rightarrow> (error + char) \<times> nat" where
  "random_choice draws letters probs pos =
     (case zip letters probs of
        [] \<Rightarrow> (Inl ValueError, pos)
      | (c, p) # rest \<Rightarrow>
          if length letters \<noteq> length probs \<or> (\<exists>q \<in> set probs. q < 0) \<or> sum_list probs \<noteq> 1
          then (Inl ValueError, pos)
          else (Inr (select (draws pos) c p rest), Suc pos))"

text \<open>
  \<open>generate_letter(lm, history)\<close>, with the generator threaded through: the result and the
  number of uniform numbers consumed afterwards.
\<close>

definition generate_letter :: "(nat \<Rightarrow> rat) \<Rightarrow> model \<Rightarrow> string \<Rightarrow> nat \<Rightarrow> (error + char) \<times> nat" where
  "generate_letter draws lm history pos =
     (if \<not> dict_has lm history then (Inr (CHR ''~''), pos)
      else case dict_get lm history of
             Inl e \<Rightarrow> (Inl e, pos)
           | Inr pairs \<Rightarrow>
               (case unzip pairs of
                  None \<Rightarrow> (Inl ValueError, pos)
                | Some (letters, probs) \<Rightarrow> random_choice draws letters probs pos))"

subsection \<open>generate\_text\<close>

record gen_state =
  history :: string
  letters_out :: "char list"
  rng_pos :: nat






text \<open>A generator whose every uniform number is 0, for concrete runs.\<close>

definition zero_draws :: "nat \<Rightarrow> rat" where
  "zero_draws i = 0"

subsection \<open>What the corpus says: observations and their counts\<close>

text \<open>
  The notions the statements about trained models are measured against, read off the
  corpus alone. The text is read with the sentinel before its first character; each
  character is observed after the one-character string that precedes it.
\<close>

definition observations :: "string \<Rightarrow> (string \<times> char) list" where
  "observations text = zip (map (\<lambda>p. [p]) (CHR ''~'' # text)) text"

text \<open>The characters observed after context \<open>h\<close>, in the order of the text.\<close>

definition followers :: "string \<Rightarrow> string \<Rightarrow> char list" where
  "followers h text = map snd (filter (\<lambda>(k, c). k = h) (observations text))"

text \<open>The position at which \<open>x\<close> is first met in \<open>xs\<close> (\<open>length xs\<close> when it never is).\<close>

definition first_index :: "'a list \<Rightarrow> 'a \<Rightarrow> nat" where
  "first_index xs x = length (takeWhile (\<lambda>y. y \<noteq> x) xs)"

text \<open>The distinct elements of a list, in the order in which they are first met.\<close>

definition first_occurrences :: "'a list \<Rightarrow> 'a list" where
  "first_occurrences xs = rev (remdups (rev xs))"

text \<open>The counting loop on a list of (history, character) pairs.\<close>

definition count_all :: "(string \<times> char) list \<Rightarrow> raw_model \<Rightarrow> raw_model" where
  "count_all obs raw_lm = fold (\<lambda>(h, c). record_occurrence h c) obs raw_lm"

text \<open>The value \<open>normalize\<close> returns when it does not raise.\<close>

definition distribution_of :: "counter \<Rightarrow> distribution" where
  "distribution_of counter =
     map (\<lambda>(c, cnt). (c, of_int cnt / of_int (sum_list (map snd counter)))) (most_common counter)"

text \<open>
  A model as the data model describes it: every distribution is a vector of non-negative
  probabilities that sum to one (and so has at least one entry).
\<close>

definition probability_vectors :: "model \<Rightarrow> bool" where
  "probability_vectors lm =
     (\<forall>(h, distr) \<in> set lm. (\<forall>(c, p) \<in> set distr. 0 \<le> p) \<and> sum_list (map snd distr) = 1)"

section \<open>Properties\<close>

subsection \<open>Dictionaries keep insertion order\<close>

lemma map_of_dict_set: "map_of (dict_set k v d) = (map_of d)(k \<mapsto> v)"
  by (induction d) (auto simp: fun_eq_iff)

lemma keys_dict_set:
  "map fst (dict_set k v d) = (if k \<in> set (map fst d) then map fst d else map fst d @ [k])"
  by (induction d) force+

lemma dict_set_new: "k \<notin> set (map fst d) \<Longrightarrow> dict_set k v d = d @ [(k, v)]"
  by (induction d) auto

lemma distinct_dict_set: "distinct (map fst d) \<Longrightarrow> distinct (map fst (dict_set k v d))"
  by (simp add: keys_dict_set)

lemma dict_set_tabulated:
  "distinct ks \<Longrightarrow> k \<in> set ks \<Longrightarrow>
   dict_set k v (map (\<lambda>x. (x, f x)) ks) = map (\<lambda>x. (x, if x = k then v else f x)) ks"
  by (induction ks) auto

subsection \<open>Order of first occurrence\<close>

lemma first_occurrences_snoc:
  "first_occurrences (xs @ [x]) =
     (if x \<in> set xs then first_occurrences xs else first_occurrences xs @ [x])"
  by (simp add: first_occurrences_def)

lemma set_first_occurrences: "set (first_occurrences xs) = set xs"
  by (simp add: first_occurrences_def)

lemma distinct_first_occurrences: "distinct (first_occurrences xs)"
  by (simp add: first_occurrences_def)

lemma first_index_less: "x \<in> set xs \<Longrightarrow> first_index xs x < length xs"
  unfolding first_index_def by (induction xs) auto

lemma first_index_snoc_old: "x \<in> set xs \<Longrightarrow> first_index (xs @ [y]) x = first_index xs x"
  unfolding first_index_def by (induction xs) auto

lemma first_index_snoc_new: "x \<notin> set xs \<Longrightarrow> first_index (xs @ [x]) x = length xs"
  unfolding first_index_def by (induction xs) auto

lemma first_occurrences_ordered:
  "sorted_wrt (\<lambda>a b. first_index xs a < first_index xs b) (first_occurrences xs)"
proof (induction xs rule: rev_induct)
  case Nil
  show ?case by (simp add: first_occurrences_def)
next
  case (snoc x xs)
  have old: "sorted_wrt (\<lambda>a b. first_index (xs @ [x]) a < first_index (xs @ [x]) b)
               (first_occurrences xs)"
    using snoc
    by (rule sorted_wrt_mono_rel[rotated])
       (simp add: set_first_occurrences first_index_snoc_old)
  show ?case
  proof (cases "x \<in> set xs")
    case True
    with old show ?thesis by (simp add: first_occurrences_snoc)
  next
    case False
    then have "\<forall>a \<in> set (first_occurrences xs). first_index (xs @ [x]) a < first_index (xs @ [x]) x"
      by (simp add: set_first_occurrences first_index_snoc_old first_index_snoc_new first_index_less)
    with old False show ?thesis
      by (simp add: first_occurrences_snoc sorted_wrt_append)
  qed
qed

subsection \<open>What a counter holds after a run of increments\<close>

lemma count_list_snoc: "count_list (xs @ [x]) y = count_list xs y + (if x = y then 1 else 0)"
  by (induction xs) auto

lemma counter_tabulated:
  "fold counter_incr cs [] = map (\<lambda>c. (c, int (count_list cs c))) (first_occurrences cs)"
proof (induction cs rule: rev_induct)
  case Nil
  show ?case by (simp add: first_occurrences_def)
next
  case (snoc c cs)
  let ?tab = "map (\<lambda>x. (x, int (count_list cs x))) (first_occurrences cs)"
  have get: "counter_get ?tab c = int (count_list cs c)"
  proof (cases "c \<in> set cs")
    case True
    then have "map_of ?tab c = Some (int (count_list cs c))"
      by (simp add: map_of_map_restrict set_first_occurrences)
    then show ?thesis by (simp add: counter_get_def)
  next
    case False
    then have "map_of ?tab c = None"
      by (simp add: map_of_map_restrict set_first_occurrences)
    with False show ?thesis by (simp add: counter_get_def)
  qed
  have "fold counter_incr (cs @ [c]) [] = counter_incr c ?tab"
    using snoc by simp
  also have "\<dots> = dict_set c (int (count_list cs c) + 1) ?tab"
    by (simp add: counter_incr_def get)
  also have "\<dots> = map (\<lambda>x. (x, int (count_list (cs @ [c]) x))) (first_occurrences (cs @ [c]))"
  proof (cases "c \<in> set cs")
    case True
    then show ?thesis
      by (simp add: dict_set_tabulated distinct_first_occurrences set_first_occurrences
            first_occurrences_snoc count_list_snoc)
  next
    case False
    then have "c \<notin> set (map fst ?tab)"
      by (simp add: set_first_occurrences comp_def)
    from dict_set_new[OF this] False show ?thesis
      by (auto simp: first_occurrences_snoc count_list_snoc set_first_occurrences)
  qed
  finally show ?case .
qed

lemma counter_total:
  "sum_list (map snd (fold counter_incr cs [])) = int (length cs)"
proof -
  have "sum_list (map snd (fold counter_incr cs [])) =
          sum_list (map (\<lambda>c. int (count_list cs c)) (first_occurrences cs))"
    by (simp add: counter_tabulated comp_def)
  also have "\<dots> = (\<Sum>c \<in> set cs. int (count_list cs c))"
    by (simp add: sum_list_distinct_conv_sum_set distinct_first_occurrences set_first_occurrences)
  also have "\<dots> = int (\<Sum>c \<in> set cs. count_list cs c)" by simp
  also have "\<dots> = int (length cs)" by (simp add: sum_count_set)
  finally show ?thesis .
qed

subsection \<open>The counting loop records the observations of the corpus\<close>

lemma slide_single: "slide n [p] c = [c]"
  by (simp add: slide_def)

lemma count_loop_count_all:
  "count_loop n tx (raw_lm, [p]) =
     (count_all (zip (map (\<lambda>p. [p]) (p # tx)) tx) raw_lm, [last (p # tx)])"
proof (induction tx arbitrary: raw_lm p)
  case Nil
  show ?case by (simp add: count_all_def)
next
  case (Cons c cs)
  show ?case
    using Cons[of "record_occurrence [p] c raw_lm" c]
    by (simp add: slide_single count_all_def)
qed

lemma count_ngrams_count_all: "count_ngrams tx n = count_all (observations tx) []"
  by (simp add: count_ngrams_def initial_history_def count_loop_count_all observations_def)

lemma keys_record_occurrence:
  "map fst (record_occurrence h c raw_lm) =
     (if h \<in> set (map fst raw_lm) then map fst raw_lm else map fst raw_lm @ [h])"
  by (simp add: record_occurrence_def keys_dict_set)

lemma distinct_count_all:
  "distinct (map fst raw_lm) \<Longrightarrow> distinct (map fst (count_all obs raw_lm))"
proof (induction obs arbitrary: raw_lm)
  case Nil
  then show ?case by (simp add: count_all_def)
next
  case (Cons o1 obs)
  obtain h c where o1: "o1 = (h, c)" by (cases o1)
  have "distinct (map fst (record_occurrence h c raw_lm))"
    using Cons.prems by (simp add: keys_record_occurrence)
  from Cons.IH[OF this] show ?case by (simp add: count_all_def o1)
qed

lemma map_of_count_all:
  "map_of (count_all obs raw_lm) h =
     (let fs = map snd (filter (\<lambda>(k, c). k = h) obs) in
      if fs = [] then map_of raw_lm h
      else Some (fold counter_incr fs (case map_of raw_lm h of None \<Rightarrow> [] | Some counter \<Rightarrow> counter)))"
proof (induction obs arbitrary: raw_lm)
  case Nil
  show ?case by (simp add: count_all_def)
next
  case (Cons o1 obs)
  obtain k c where o1: "o1 = (k, c)" by (cases o1)
  have step: "count_all (o1 # obs) raw_lm = count_all obs (record_occurrence k c raw_lm)"
    by (simp add: count_all_def o1)
  show ?case
    unfolding step Cons.IH
    by (simp add: o1 record_occurrence_def map_of_dict_set Let_def)
qed

lemma raw_counter:
  "map_of (count_ngrams tx n) h =
     (if followers h tx = [] then None else Some (fold counter_incr (followers h tx) []))"
  by (simp add: count_ngrams_count_all map_of_count_all followers_def Let_def)

lemma distinct_count_ngrams: "distinct (map fst (count_ngrams tx n))"
  by (simp add: count_ngrams_count_all distinct_count_all)

lemma raw_entry:
  assumes "(h, counter) \<in> set (count_ngrams tx n)"
  shows "followers h tx \<noteq> [] \<and> counter = fold counter_incr (followers h tx) []"
proof -
  from assms distinct_count_ngrams have "map_of (count_ngrams tx n) h = Some counter"
    by (simp add: map_of_eq_Some_iff)
  then show ?thesis by (simp add: raw_counter split: if_splits)
qed

lemma followers_context: "followers h tx \<noteq> [] \<Longrightarrow> length h = 1"
proof -
  assume "followers h tx \<noteq> []"
  then obtain c where "(h, c) \<in> set (observations tx)"
    by (auto simp: followers_def filter_empty_conv)
  then have "h \<in> set (map (\<lambda>p. [p]) (CHR ''~'' # tx))"
    unfolding observations_def by (rule set_zip_leftD)
  then show ?thesis by auto
qed

subsection \<open>Normalisation of the counted model\<close>

lemma normalize_ok:
  "counter = [] \<or> sum_list (map snd counter) \<noteq> 0 \<Longrightarrow> normalize_counter counter = Inr (distribution_of counter)"
  by (auto simp: normalize_counter_def distribution_of_def most_common_def Let_def)

lemma normalize_all_ok:
  "\<lbrakk>\<forall>(h, counter) \<in> set raw_lm. normalize_counter counter = Inr (distribution_of counter);
    distinct (map fst raw_lm); set (map fst raw_lm) \<inter> set (map fst lm) = {}\<rbrakk>
   \<Longrightarrow> normalize_all raw_lm lm = Inr (lm @ map (\<lambda>(h, counter). (h, distribution_of counter)) raw_lm)"
proof (induction raw_lm arbitrary: lm)
  case Nil
  show ?case by simp
next
  case (Cons e raw_lm)
  obtain h counter where e: "e = (h, counter)" by (cases e)
  from Cons.prems e have h_new: "h \<notin> set (map fst lm)" by auto
  have norm: "normalize_counter counter = Inr (distribution_of counter)"
    using Cons.prems(1) e by simp
  have "normalize_all raw_lm (lm @ [(h, distribution_of counter)]) =
          Inr ((lm @ [(h, distribution_of counter)]) @
               map (\<lambda>(h, counter). (h, distribution_of counter)) raw_lm)"
    using Cons.prems e by (intro Cons.IH) auto
  then show ?case
    by (simp add: e norm dict_set_new[OF h_new])
qed

lemma counter_nonzero:
  "cs \<noteq> [] \<Longrightarrow> sum_list (map snd (fold counter_incr cs [])) \<noteq> 0"
  by (simp add: counter_total)

lemma train_lm_value:
  "train_lm tx n = Inr (map (\<lambda>(h, counter). (h, distribution_of counter)) (count_ngrams tx n))"
proof -
  have "\<forall>(h, counter) \<in> set (count_ngrams tx n). normalize_counter counter = Inr (distribution_of counter)"
    by (auto dest!: raw_entry intro!: normalize_ok simp: counter_nonzero)
  from normalize_all_ok[OF this distinct_count_ngrams, of "[]"]
  show ?thesis by (simp add: train_lm_def)
qed

lemma train_lm_entry:
  assumes "train_lm tx n = Inr lm"
  shows "map_of lm h =
          (if followers h tx = [] then None
           else Some (distribution_of (fold counter_incr (followers h tx) [])))"
proof -
  from assms have lm: "lm = map (\<lambda>(h, counter). (h, distribution_of counter)) (count_ngrams tx n)"
    by (simp add: train_lm_value)
  have "map_of lm h = map_option distribution_of (map_of (count_ngrams tx n) h)"
    unfolding lm by (simp add: map_of_map)
  then show ?thesis by (simp add: raw_counter)
qed

lemma train_lm_keys:
  assumes "train_lm tx n = Inr lm"
  shows "map fst lm = map fst (count_ngrams tx n)"
  using assms by (auto simp: train_lm_value)

subsection \<open>The stable sort behind most\_common\<close>

lemma sum_list_insort_key:
  "sum_list (map f (insort_key k x xs)) = f x + sum_list (map f xs)"
  for f :: "'a \<Rightarrow> 'b::comm_monoid_add"
  by (induction xs) (auto simp: add_ac)

lemma sum_list_sort_key:
  "sum_list (map f (sort_key k xs)) = sum_list (map f xs)"
  for f :: "'a \<Rightarrow> 'b::comm_monoid_add"
  by (induction xs) (auto simp: sum_list_insort_key)

lemma distinct_map_insort_key:
  "distinct (map f (insort_key k x xs)) \<longleftrightarrow> f x \<notin> f ` set xs \<and> distinct (map f xs)"
  by (induction xs) (auto simp: set_insort_key)

lemma distinct_map_sort_key:
  "distinct (map f (sort_key k xs)) \<longleftrightarrow> distinct (map f xs)"
  by (induction xs) (auto simp: distinct_map_insort_key)

lemma insort_key_lex:
  fixes k :: "'a \<Rightarrow> 'b::linorder"
  assumes "sorted_wrt (\<lambda>a b. k a < k b \<or> (k a = k b \<and> Q a b)) xs"
    and "\<forall>y \<in> set xs. Q x y"
  shows "sorted_wrt (\<lambda>a b. k a < k b \<or> (k a = k b \<and> Q a b)) (insort_key k x xs)"
  using assms
proof (induction xs)
  case Nil
  show ?case by simp
next
  case (Cons y ys)
  show ?case
  proof (cases "k x \<le> k y")
    case True
    have "\<forall>z \<in> set (y # ys). k x < k z \<or> (k x = k z \<and> Q x z)"
      using True Cons.prems by force
    with True Cons.prems(1) show ?thesis by simp
  next
    case False
    with Cons show ?thesis by (auto simp: set_insort_key)
  qed
qed

lemma sort_key_lex:
  fixes k :: "'a \<Rightarrow> 'b::linorder"
  assumes "sorted_wrt Q xs"
  shows "sorted_wrt (\<lambda>a b. k a < k b \<or> (k a = k b \<and> Q a b)) (sort_key k xs)"
  using assms
proof (induction xs)
  case Nil
  show ?case by simp
next
  case (Cons x xs)
  then have "sorted_wrt (\<lambda>a b. k a < k b \<or> (k a = k b \<and> Q a b)) (sort_key k xs)"
    and "\<forall>y \<in> set (sort_key k xs). Q x y"
    by auto
  then show ?case by (simp add: insort_key_lex)
qed

lemma of_int_sum_list_map:
  "(of_int (sum_list (map g xs)) :: rat) = sum_list (map (\<lambda>x. of_int (g x)) xs)"
  by (induction xs) auto

lemma sum_list_divide_const:
  "sum_list (map (\<lambda>x. g x / t) xs) = sum_list (map g xs) / t" for t :: rat
  by (induction xs) (auto simp: add_divide_distrib)

subsection \<open>The distribution computed from a counter\<close>

lemma distribution_total:
  assumes "sum_list (map snd counter) \<noteq> 0"
  shows "sum_list (map snd (distribution_of counter)) = 1"
proof -
  let ?t = "rat_of_int (sum_list (map snd counter))"
  have "map snd (distribution_of counter) = map (\<lambda>e. of_int (snd e) / ?t) (most_common counter)"
    by (simp add: distribution_of_def case_prod_unfold)
  then have "sum_list (map snd (distribution_of counter)) =
               sum_list (map (\<lambda>e. of_int (snd e)) counter) / ?t"
    by (simp add: sum_list_divide_const most_common_def sum_list_sort_key)
  also have "\<dots> = ?t / ?t" by (simp add: of_int_sum_list_map)
  finally show ?thesis using assms by simp
qed

lemma distribution_entries:
  "set (distribution_of counter) =
     (\<lambda>(c, cnt). (c, of_int cnt / of_int (sum_list (map snd counter)))) ` set counter"
  by (simp add: distribution_of_def most_common_def)

lemma distribution_letters: "map fst (distribution_of counter) = map fst (most_common counter)"
  by (simp add: distribution_of_def case_prod_unfold)

lemma distribution_order:
  assumes "sorted_wrt (\<lambda>a b. Q (fst a) (fst b)) counter" and "0 < sum_list (map snd counter)"
  shows "sorted_wrt (\<lambda>(c1, p1) (c2, p2). p2 < p1 \<or> (p1 = p2 \<and> Q c1 c2)) (distribution_of counter)"
proof -
  let ?t = "rat_of_int (sum_list (map snd counter))"
  let ?k = "\<lambda>(c, cnt). - cnt :: int"
  have t: "0 < ?t" using assms(2) by simp
  have "sorted_wrt (\<lambda>a b. ?k a < ?k b \<or> (?k a = ?k b \<and> Q (fst a) (fst b))) (sort_key ?k counter)"
    using assms(1) by (rule sort_key_lex)
  then have "sorted_wrt (\<lambda>a b. of_int (snd b) / ?t < of_int (snd a) / ?t \<or>
                (of_int (snd a) / ?t = of_int (snd b) / ?t \<and> Q (fst a) (fst b))) (sort_key ?k counter)"
    by (rule sorted_wrt_mono_rel[rotated]) (use t in \<open>auto simp: divide_strict_right_mono\<close>)
  then show ?thesis
    by (simp add: distribution_of_def most_common_def sorted_wrt_map case_prod_unfold)
qed

subsection \<open>Trained models\<close>


lemma train_lm_key_length:
  assumes "train_lm tx n = Inr lm" and "h \<in> set (map fst lm)"
  shows "length h = 1"
proof -
  from assms obtain counter where "(h, counter) \<in> set (count_ngrams tx n)"
    by (auto simp: train_lm_keys[OF assms(1)])
  then have "followers h tx \<noteq> []" by (simp add: raw_entry)
  then show ?thesis by (rule followers_context)
qed

lemma distinct_train_lm:
  "train_lm tx n = Inr lm \<Longrightarrow> distinct (map fst lm)"
  by (simp add: train_lm_keys distinct_count_ngrams)

lemma train_lm_distribution:
  assumes "train_lm tx n = Inr lm" and "(h, distr) \<in> set lm"
  shows "sum_list (map snd distr) = 1 \<and>
         (\<forall>(c, p) \<in> set distr.
            p = of_nat (count_list (followers h tx) c) / of_nat (length (followers h tx))) \<and>
         distinct (map fst distr) \<and>
         set (map fst distr) = set (followers h tx) \<and>
         sorted_wrt (\<lambda>(c1, p1) (c2, p2). p2 < p1 \<or>
            (p1 = p2 \<and> first_index (followers h tx) c1 < first_index (followers h tx) c2)) distr"
proof -
  let ?fs = "followers h tx"
  let ?counter = "fold counter_incr ?fs []"
  from assms have "map_of lm h = Some distr"
    by (simp add: distinct_train_lm)
  then have fs: "?fs \<noteq> []" and distr: "distr = distribution_of ?counter"
    by (simp_all add: train_lm_entry[OF assms(1)] split: if_splits)
  have total: "sum_list (map snd ?counter) = int (length ?fs)"
    by (rule counter_total)
  have tab: "?counter = map (\<lambda>c. (c, int (count_list ?fs c))) (first_occurrences ?fs)"
    by (rule counter_tabulated)
  have "sum_list (map snd distr) = 1"
    unfolding distr using fs by (intro distribution_total) (simp add: total)
  moreover have "\<forall>(c, p) \<in> set distr. p = of_nat (count_list ?fs c) / of_nat (length ?fs)"
    unfolding distr distribution_entries total by (auto simp: tab)
  moreover have "distinct (map fst distr)"
    unfolding distr distribution_letters most_common_def distinct_map_sort_key
    by (simp add: tab comp_def distinct_first_occurrences)
  moreover have "set (map fst distr) = set ?fs"
  proof -
    have "set (map fst distr) = fst ` set ?counter"
      by (simp add: distr distribution_letters most_common_def)
    also have "\<dots> = set ?fs"
      unfolding tab by (simp add: image_image set_first_occurrences)
    finally show ?thesis .
  qed
  moreover have "sorted_wrt (\<lambda>(c1, p1) (c2, p2). p2 < p1 \<or>
            (p1 = p2 \<and> first_index ?fs c1 < first_index ?fs c2)) distr"
    unfolding distr
  proof (rule distribution_order)
    show "sorted_wrt (\<lambda>a b. first_index ?fs (fst a) < first_index ?fs (fst b)) ?counter"
      unfolding tab by (simp add: sorted_wrt_map first_occurrences_ordered)
    show "0 < sum_list (map snd ?counter)" using fs by (simp add: total)
  qed
  ultimately show ?thesis by blast
qed

lemma train_lm_probability_vectors:
  assumes "train_lm tx n = Inr lm"
  shows "probability_vectors lm"
  unfolding probability_vectors_def
proof (intro ballI, clarify, intro conjI)
  fix h distr
  assume entry: "(h, distr) \<in> set lm"
  from train_lm_distribution[OF assms entry]
  show "sum_list (map snd distr) = 1" by blast
  from train_lm_distribution[OF assms entry]
  show "\<forall>(c, p) \<in> set distr. 0 \<le> p" by fastforce
qed

subsection \<open>Generation\<close>










subsection \<open>The training loop is deterministic\<close>






subsection \<open>Concrete runs\<close>

text \<open>
  C1: on the text "cacao" with \<open>n = 3\<close> the docstring of \<open>train_lm\<close> promises the four
  entries "ac", "ca", "~c" and "~~". The code returns three entries, keyed by the single
  preceding character: "~", "c" and "a".
\<close>

theorem train_lm_cacao_3:
  "train_lm ''cacao'' 3 =
     Inr [(''~'', [(CHR ''c'', 1)]), (''c'', [(CHR ''a'', 1)]),
          (''a'', [(CHR ''c'', 1 / 2), (CHR ''o'', 1 / 2)])]"
  by code_simp

text \<open>
  C8: for every \<open>n \<ge> 1\<close>, training on the empty text raises nothing and returns the
  empty model.
\<close>

theorem train_lm_empty_text: "1 \<le> n \<Longrightarrow> train_lm [] n = Inr []"
  by (simp add: train_lm_def count_ngrams_def)

theorem train_lm_empty_text_witness: "(1::int) \<le> 3 \<and> train_lm [] 3 = Inr []"
  using train_lm_empty_text [of 3] by simp

text \<open>
  C6: when the history is not a key of the model, \<open>generate_letter\<close> returns the sentinel
  "~", whatever the generator holds, and leaves the generator where it was: no uniform
  number is consumed.
\<close>

theorem generate_letter_miss:
  "\<not> dict_has lm h \<Longrightarrow> generate_letter draws lm h pos = (Inr (CHR ''~''), pos)"
  by (simp add: generate_letter_def)

theorem generate_letter_miss_witness:
  "\<not> dict_has [(''a'', [(CHR ''b'', 1::rat)])] ''b'' \<and>
   generate_letter zero_draws [(''a'', [(CHR ''b'', 1)])] ''b'' 7 = (Inr (CHR ''~''), 7)"
  using generate_letter_miss [of "[(''a'', [(CHR ''b'', 1)])]" "''b''" zero_draws 7]
  by (simp add: dict_has_def)

subsection \<open>Distributions of a trained model\<close>

text \<open>
  C5: in every trained model, for every context key \<open>h\<close> with its distribution: the
  probabilities sum to 1; each pair \<open>(c, p)\<close> has \<open>p\<close> equal to the number of times \<open>c\<close> was
  observed after \<open>h\<close> divided by the number of observations after \<open>h\<close>; the characters
  listed are, without repetition, exactly those observed after \<open>h\<close>; and the pairs are in
  order of descending probability, pairs of equal probability in the order in which their
  characters were first observed after \<open>h\<close>. Probabilities are exact quotients here.
\<close>

theorem trained_distribution:
  assumes "train_lm tx n = Inr lm" and "(h, distr) \<in> set lm"
  shows "sum_list (map snd distr) = 1 \<and>
         (\<forall>(c, p) \<in> set distr.
            p = of_nat (count_list (followers h tx) c) / of_nat (length (followers h tx))) \<and>
         distinct (map fst distr) \<and>
         set (map fst distr) = set (followers h tx) \<and>
         sorted_wrt (\<lambda>(c1, p1) (c2, p2). p2 < p1 \<or>
            (p1 = p2 \<and> first_index (followers h tx) c1 < first_index (followers h tx) c2)) distr"
  using assms by (rule train_lm_distribution)

theorem trained_distribution_witness:
  "train_lm ''cacao'' 3 =
     Inr [(''~'', [(CHR ''c'', 1)]), (''c'', [(CHR ''a'', 1)]),
          (''a'', [(CHR ''c'', 1 / 2), (CHR ''o'', 1 / 2)])] \<and>
   (''a'', [(CHR ''c'', 1 / 2), (CHR ''o'', 1 / 2)]) \<in>
     set [(''~'', [(CHR ''c'', 1)]), (''c'', [(CHR ''a'', 1)]),
          (''a'', [(CHR ''c'', 1 / 2 :: rat), (CHR ''o'', 1 / 2)])] \<and>
   followers ''a'' ''cacao'' = ''co'' \<and>
   sum_list (map snd [(CHR ''c'', 1 / 2 :: rat), (CHR ''o'', 1 / 2)]) = 1 \<and>
   (1 / 2 :: rat) = of_nat (count_list ''co'' (CHR ''c'')) / of_nat (length ''co'') \<and>
   (1 / 2 :: rat) = of_nat (count_list ''co'' (CHR ''o'')) / of_nat (length ''co'') \<and>
   distinct (map fst [(CHR ''c'', 1 / 2 :: rat), (CHR ''o'', 1 / 2)]) \<and>
   set (map fst [(CHR ''c'', 1 / 2 :: rat), (CHR ''o'', 1 / 2)]) = set ''co'' \<and>
   sorted_wrt (\<lambda>(c1, p1) (c2, p2). p2 < p1 \<or>
      (p1 = p2 \<and> first_index ''co'' c1 < first_index ''co'' c2))
     [(CHR ''c'', 1 / 2 :: rat), (CHR ''o'', 1 / 2)]"
proof -
  have run: "train_lm ''cacao'' 3 =
     Inr [(''~'', [(CHR ''c'', 1)]), (''c'', [(CHR ''a'', 1)]),
          (''a'', [(CHR ''c'', 1 / 2), (CHR ''o'', 1 / 2)])]"
    by code_simp
  have mem: "(''a'', [(CHR ''c'', 1 / 2), (CHR ''o'', 1 / 2)]) \<in>
     set [(''~'', [(CHR ''c'', 1)]), (''c'', [(CHR ''a'', 1)]),
          (''a'', [(CHR ''c'', 1 / 2 :: rat), (CHR ''o'', 1 / 2)])]"
    by simp
  have fs: "followers ''a'' ''cacao'' = ''co''"
    by (simp add: followers_def observations_def)
  from trained_distribution[OF run mem] run mem fs show ?thesis
    by (simp add: first_index_def)
qed

subsection \<open>No division by zero\<close>

text \<open>
  C10: for every text and every \<open>n \<ge> 1\<close>, every counter of the raw model has been
  incremented at least once, so its total is at least 1 and \<open>normalize\<close> does not raise
  \<open>ZeroDivisionError\<close> on it; \<open>train_lm\<close> returns a model.
\<close>

theorem normalize_never_divides_by_zero:
  assumes "1 \<le> n"
  shows "(\<forall>(h, counter) \<in> set (count_ngrams tx n).
            1 \<le> sum_list (map snd counter) \<and>
            normalize_counter counter \<noteq> Inl ZeroDivisionError) \<and>
         (\<exists>lm. train_lm tx n = Inr lm)"
proof -
  have "1 \<le> sum_list (map snd counter) \<and> normalize_counter counter \<noteq> Inl ZeroDivisionError"
    if "(h, counter) \<in> set (count_ngrams tx n)" for h counter
  proof -
    from raw_entry[OF that] have fs: "followers h tx \<noteq> []"
      and counter: "counter = fold counter_incr (followers h tx) []" by simp_all
    have "1 \<le> sum_list (map snd counter)"
      unfolding counter counter_total using fs by (cases "followers h tx") simp_all
    then show ?thesis by (simp add: normalize_ok)
  qed
  then show ?thesis by (auto simp: train_lm_value)
qed

theorem normalize_never_divides_by_zero_witness:
  "(1::int) \<le> 2 \<and>
   count_ngrams ''aab'' 2 =
     [(''~'', [(CHR ''a'', 1)]), (''a'', [(CHR ''a'', 1), (CHR ''b'', 1)])] \<and>
   1 \<le> sum_list (map snd [(CHR ''a'', 1::int)]) \<and>
   normalize_counter [(CHR ''a'', 1)] \<noteq> Inl ZeroDivisionError \<and>
   1 \<le> sum_list (map snd [(CHR ''a'', 1::int), (CHR ''b'', 1)]) \<and>
   normalize_counter [(CHR ''a'', 1), (CHR ''b'', 1)] \<noteq> Inl ZeroDivisionError \<and>
   (\<exists>lm. train_lm ''aab'' 2 = Inr lm)"
proof -
  have raw: "count_ngrams ''aab'' 2 =
     [(''~'', [(CHR ''a'', 1)]), (''a'', [(CHR ''a'', 1), (CHR ''b'', 1)])]"
    by code_simp
  from normalize_never_divides_by_zero [of 2 "''aab''"] raw show ?thesis
    by simp
qed

subsection \<open>No validation of n\<close>

text \<open>
  C4, as claimed, fails: with \<open>n = 0\<close> the call returns a model.
\<close>

theorem train_lm_accepts_n_below_1_example:
  "(0::int) < 1 \<and> train_lm ''a'' 0 = Inr [(''~'', [(CHR ''a'', 1)])]"
  by code_simp

text \<open>
  C4, amended: for every text and every \<open>n < 1\<close>, \<open>train_lm\<close> checks nothing about \<open>n\<close>,
  raises nothing and returns a model.
\<close>

theorem train_lm_accepts_n_below_1:
  "n < 1 \<Longrightarrow> \<exists>lm. train_lm tx n = Inr lm"
  by (simp add: train_lm_value)

theorem train_lm_accepts_n_below_1_witness:
  "(-2::int) < 1 \<and> (\<exists>lm. train_lm ''ab'' (-2) = Inr lm)"
  using train_lm_accepts_n_below_1 [of "-2" "''ab''"] by simp

subsection \<open>Length of the history window\<close>

text \<open>
  C2, as claimed, fails: with \<open>n = 1\<close> the window starts as "~" and the keys are one
  character long, where \<open>n - 1 = 0\<close>.
\<close>

theorem unigram_keys_not_empty:
  "(1::int) \<le> 1 \<and> length initial_history \<noteq> nat (1 - 1) \<and>
   train_lm ''ab'' 1 = Inr [(''~'', [(CHR ''a'', 1)]), (''a'', [(CHR ''b'', 1)])] \<and>
   length ''~'' \<noteq> nat (1 - 1) \<and> length ''a'' \<noteq> nat (1 - 1)"
  by code_simp

text \<open>
  C2, amended: for \<open>n = 2\<close>, and through the \<open>n == 1\<close> branch for \<open>n = 1\<close>, training
  starts from the one-character window "~" and every context key of the returned model
  has exactly one character: \<open>n - 1\<close> characters for \<open>n = 2\<close>, and the last character read
  (not the empty window) for \<open>n = 1\<close>.
\<close>

theorem context_length_n_1_2:
  assumes "n = 1 \<or> n = 2" and "train_lm tx n = Inr lm" and "h \<in> set (map fst lm)"
  shows "initial_history = ''~'' \<and> length h = 1 \<and>
         (n = 2 \<longrightarrow> initial_history = replicate (nat (n - 1)) (CHR ''~'') \<and>
                   length h = nat (n - 1))"
  using assms by (auto simp: initial_history_def train_lm_key_length)

theorem context_length_n_1_2_witness:
  "((2::int) = 1 \<or> (2::int) = 2) \<and>
   train_lm ''ab'' 2 = Inr [(''~'', [(CHR ''a'', 1)]), (''a'', [(CHR ''b'', 1)])] \<and>
   ''a'' \<in> set (map fst [(''~'', [(CHR ''a'', 1::rat)]), (''a'', [(CHR ''b'', 1)])]) \<and>
   initial_history = ''~'' \<and> length ''a'' = 1 \<and>
   initial_history = replicate (nat (2 - 1)) (CHR ''~'') \<and> length ''a'' = nat (2 - 1)"
proof -
  have run: "train_lm ''ab'' 2 = Inr [(''~'', [(CHR ''a'', 1)]), (''a'', [(CHR ''b'', 1)])]"
    by code_simp
  have mem: "''a'' \<in> set (map fst [(''~'', [(CHR ''a'', 1::rat)]), (''a'', [(CHR ''b'', 1)])])"
    by simp
  have n: "(2::int) = 1 \<or> (2::int) = 2" by simp
  from context_length_n_1_2[OF n run mem] run mem show ?thesis by simp
qed



subsection \<open>Length and shape of the generated text\<close>




end
